theory Spec2Isabelle
  imports Main "HOL-Library.Word"
begin

unbundle bit_operations_syntax

section \<open>The cycle clock of src/cycleclock.h\<close>

text \<open>
  \<^verbatim>\<open>benchmark::cycleclock::Now()\<close> is one function whose body is chosen by the
  preprocessor. The model has two stages, as the code has: a build configuration (the
  macros the \<^verbatim>\<open>#if\<close> chain tests) selects one body or stops at \<^verbatim>\<open>#error\<close>, and the
  selected body maps what the hardware and the kernel answer during one call to the
  returned \<^verbatim>\<open>int64_t\<close>.

  A returned \<^verbatim>\<open>int64_t\<close> is a \<open>64 word\<close>, read with \<open>sint\<close>. Arithmetic on words
  wraps around; the C++ arithmetic on \<^verbatim>\<open>int64_t\<close> is modelled by it, which is what the
  compiled code does where the C++ standard leaves signed overflow undefined.
\<close>

subsection \<open>Build configuration and branch selection\<close>

text \<open>One field for each macro tested by the \<^verbatim>\<open>#if\<close> chain of lines 51 to 126.\<close>

record config =
  OS_MACOSX :: bool
  i386 :: bool
  x86_64 :: bool
  amd64 :: bool
  powerpc :: bool
  ppc :: bool
  sparc :: bool
  ia64 :: bool
  COMPILER_MSVC :: bool
  M_IX86 :: bool
  ARMV3 :: bool
  ARMV6 :: bool
  mips :: bool

datatype branch =
  MacOSX | I386 | X86_64 | PowerPC | Sparc | IA64 | MSVC_IX86 | MSVC | ARM | MIPS

text \<open>The \<^verbatim>\<open>#if / #elif / #else\<close> chain: the first guard that holds wins, \<open>None\<close> is
  the \<^verbatim>\<open>#else\<close> arm.\<close>

definition select_branch :: "config \<Rightarrow> branch option" where
  "select_branch cfg =
     (if OS_MACOSX cfg then Some MacOSX
      else if i386 cfg then Some I386
      else if x86_64 cfg \<or> amd64 cfg then Some X86_64
      else if powerpc cfg \<or> ppc cfg then Some PowerPC
      else if sparc cfg then Some Sparc
      else if ia64 cfg then Some IA64
      else if COMPILER_MSVC cfg \<and> M_IX86 cfg then Some MSVC_IX86
      else if COMPILER_MSVC cfg then Some MSVC
      else if ARMV3 cfg then Some ARM
      else if mips cfg then Some MIPS
      else None)"

text \<open>The text of the \<^verbatim>\<open>#error\<close> directive of line 125.\<close>

definition error_directive :: string where
  "error_directive = ''You need to define CycleTimer for your OS and CPU''"

subsection \<open>What one call reads\<close>

text \<open>
  \<^verbatim>\<open>struct timeval\<close> comes from \<^verbatim>\<open><sys/time.h>\<close>, which is not part of the
  repository: the widths of \<^verbatim>\<open>time_t\<close> and \<^verbatim>\<open>suseconds_t\<close> are type parameters
  (both are signed integer types).
\<close>

record (overloaded) ('t, 'u) timeval =
  tv_sec :: "'t word"
  tv_usec :: "'u word"

text \<open>
  The answers of the hardware and of the kernel during one call. A body reads only the
  fields of its own instructions.
  \<^item> \<open>rdtsc_eax\<close>, \<open>rdtsc_edx\<close>: the two 32-bit halves the \<^verbatim>\<open>rdtsc\<close> instruction leaves in
    EAX (low) and EDX (high);
  \<^item> \<open>tb_first\<close>, \<open>tb_second\<close>, \<open>tb_third\<close>: the 64-bit PowerPC time base at the moments
    the three instructions \<^verbatim>\<open>mftbu\<close>, \<^verbatim>\<open>mftb\<close>, \<^verbatim>\<open>mftbu\<close> of lines 73 to 75 execute;
  \<^item> \<open>pmuseren\<close>, \<open>pmcntenset\<close>, \<open>pmccntr\<close>: the three ARM coprocessor registers.
\<close>

record (overloaded) ('t, 'u) hw =
  mach_absolute_time :: "64 word"
  rdtsc_eax :: "32 word"
  rdtsc_edx :: "32 word"
  tb_first :: "64 word"
  tb_second :: "64 word"
  tb_third :: "64 word"
  tick :: "64 word"
  ar_itc :: "64 word"
  pmuseren :: "32 word"
  pmcntenset :: "32 word"
  pmccntr :: "32 word"
  gettimeofday :: "('t, 'u) timeval"

text \<open>Every body returns, beside its value, the list of the sources it read, in order.\<close>

datatype hw_read =
  Rd_mach_absolute_time | Rd_rdtsc | Rd_mftbu | Rd_mftb | Rd_tick | Rd_ar_itc
  | Rd_pmuseren | Rd_pmcntenset | Rd_pmccntr | Rd_gettimeofday

type_synonym outcome = "hw_read list \<times> 64 word"

subsection \<open>Instruction semantics\<close>

text \<open>\<^verbatim>\<open>mftbu\<close> gives the upper 32 bits of the time base, \<^verbatim>\<open>mftb\<close> the lower 32 bits.\<close>

definition mftbu :: "64 word \<Rightarrow> 32 word" where
  "mftbu tb = ucast (drop_bit 32 tb)"

definition mftb :: "64 word \<Rightarrow> 32 word" where
  "mftb tb = ucast tb"

text \<open>The register pair EDX:EAX as one 64-bit value: the \<^verbatim>\<open>"=A"\<close> constraint of line 64,
  the value of the \<^verbatim>\<open>__rdtsc\<close> intrinsic, and the return register pair of a 32-bit MSVC
  function.\<close>

definition edx_eax :: "32 word \<Rightarrow> 32 word \<Rightarrow> 64 word" where
  "edx_eax d a = push_bit 32 (ucast d) OR ucast a"

subsection \<open>The bodies\<close>

text \<open>Line 61.\<close>

definition now_macosx :: "('t::len, 'u::len) hw \<Rightarrow> outcome" where
  "now_macosx h = ([Rd_mach_absolute_time], mach_absolute_time h)"

text \<open>Lines 63 to 65.\<close>

definition now_i386 :: "('t::len, 'u::len) hw \<Rightarrow> outcome" where
  "now_i386 h = (let ret = edx_eax (rdtsc_edx h) (rdtsc_eax h) in ([Rd_rdtsc], ret))"

text \<open>Line 69, on the two \<^verbatim>\<open>uint64_t\<close> variables.\<close>

definition x86_64_combine :: "64 word \<Rightarrow> 64 word \<Rightarrow> 64 word" where
  "x86_64_combine low high = push_bit 32 high OR low"

text \<open>Lines 67 to 69: \<^verbatim>\<open>rdtsc\<close> writes RAX and RDX with their upper halves cleared.\<close>

definition now_x86_64 :: "('t::len, 'u::len) hw \<Rightarrow> outcome" where
  "now_x86_64 h =
     (let low = ucast (rdtsc_eax h); high = ucast (rdtsc_edx h)
      in ([Rd_rdtsc], x86_64_combine low high))"

text \<open>Lines 76 to 78, on the three \<^verbatim>\<open>int64_t\<close> variables. \<^verbatim>\<open>int64\<close> is declared
  outside this header; it is taken to be \<^verbatim>\<open>int64_t\<close>.\<close>

definition powerpc_combine :: "64 word \<Rightarrow> 64 word \<Rightarrow> 64 word \<Rightarrow> 64 word" where
  "powerpc_combine tbu0 tbl tbu1 =
     (let tbl' = tbl AND - (if tbu0 = tbu1 then 1 else 0)
      in push_bit 32 tbu1 OR tbl')"

text \<open>Lines 72 to 78: each instruction delivers a 32-bit register value, held
  zero-extended in its \<^verbatim>\<open>int64_t\<close> variable.\<close>

definition now_powerpc :: "('t::len, 'u::len) hw \<Rightarrow> outcome" where
  "now_powerpc h =
     (let tbu0 = ucast (mftbu (tb_first h));
          tbl = ucast (mftb (tb_second h));
          tbu1 = ucast (mftbu (tb_third h))
      in ([Rd_mftbu, Rd_mftb, Rd_mftbu], powerpc_combine tbu0 tbl tbu1))"

text \<open>Lines 80 to 83.\<close>

definition now_sparc :: "('t::len, 'u::len) hw \<Rightarrow> outcome" where
  "now_sparc h = ([Rd_tick], tick h)"

text \<open>Lines 85 to 87.\<close>

definition now_ia64 :: "('t::len, 'u::len) hw \<Rightarrow> outcome" where
  "now_ia64 h = ([Rd_ar_itc], ar_itc h)"

text \<open>Line 93: \<^verbatim>\<open>_asm rdtsc\<close> with no \<^verbatim>\<open>return\<close> statement; the function returns what
  the instruction left in EDX:EAX.\<close>

definition now_msvc_ix86 :: "('t::len, 'u::len) hw \<Rightarrow> outcome" where
  "now_msvc_ix86 h = ([Rd_rdtsc], edx_eax (rdtsc_edx h) (rdtsc_eax h))"

text \<open>Line 95.\<close>

definition now_msvc :: "('t::len, 'u::len) hw \<Rightarrow> outcome" where
  "now_msvc h = ([Rd_rdtsc], edx_eax (rdtsc_edx h) (rdtsc_eax h))"

text \<open>Lines 112 to 114 and 118 to 120: \<^verbatim>\<open>tv_sec\<close> is cast to \<^verbatim>\<open>int64_t\<close>, the product
  and the sum are computed in \<^verbatim>\<open>int64_t\<close>, which sign-extends \<^verbatim>\<open>tv_usec\<close>.\<close>

definition timeval_micros :: "('t::len, 'u::len) timeval \<Rightarrow> 64 word" where
  "timeval_micros tv = scast (tv_sec tv) * 1000000 + scast (tv_usec tv)"

definition now_gettimeofday :: "hw_read list \<Rightarrow> ('t::len, 'u::len) hw \<Rightarrow> outcome" where
  "now_gettimeofday before h =
     (let tv = gettimeofday h in (before @ [Rd_gettimeofday], timeval_micros tv))"

text \<open>Lines 97 to 114; the first argument is whether \<^verbatim>\<open>ARMV6\<close> is defined.\<close>

definition now_arm :: "bool \<Rightarrow> ('t::len, 'u::len) hw \<Rightarrow> outcome" where
  "now_arm armv6 h =
     (if armv6 then
        (if pmuseren h AND 1 \<noteq> 0 then
           (if pmcntenset h AND 0x80000000 \<noteq> 0 then
              ([Rd_pmuseren, Rd_pmcntenset, Rd_pmccntr], ucast (pmccntr h) * 64)
            else now_gettimeofday [Rd_pmuseren, Rd_pmcntenset] h)
         else now_gettimeofday [Rd_pmuseren] h)
      else now_gettimeofday [] h)"

text \<open>Lines 118 to 120.\<close>

definition now_mips :: "('t::len, 'u::len) hw \<Rightarrow> outcome" where
  "now_mips h = now_gettimeofday [] h"

subsection \<open>The function\<close>

fun body :: "config \<Rightarrow> branch \<Rightarrow> ('t::len, 'u::len) hw \<Rightarrow> outcome" where
  "body cfg MacOSX = now_macosx"
| "body cfg I386 = now_i386"
| "body cfg X86_64 = now_x86_64"
| "body cfg PowerPC = now_powerpc"
| "body cfg Sparc = now_sparc"
| "body cfg IA64 = now_ia64"
| "body cfg MSVC_IX86 = now_msvc_ix86"
| "body cfg MSVC = now_msvc"
| "body cfg ARM = now_arm (ARMV6 cfg)"
| "body cfg MIPS = now_mips"

text \<open>Compiling the header under a configuration: the \<^verbatim>\<open>#error\<close> text, or the function
  \<^verbatim>\<open>Now\<close>.\<close>

definition Now :: "config \<Rightarrow> string + (('t::len, 'u::len) hw \<Rightarrow> outcome)" where
  "Now cfg =
     (case select_branch cfg of
        None \<Rightarrow> Inl error_directive
      | Some b \<Rightarrow> Inr (body cfg b))"

subsection \<open>Readings as numbers\<close>

text \<open>The value of one call, as the signed number the caller receives.\<close>

definition now_value :: "config \<Rightarrow> branch \<Rightarrow> ('t::len, 'u::len) hw \<Rightarrow> int" where
  "now_value cfg b h = sint (snd (body cfg b h))"

text \<open>The 64-bit time-stamp counter whose halves \<^verbatim>\<open>rdtsc\<close> delivers.\<close>

definition tsc :: "('t::len, 'u::len) hw \<Rightarrow> int" where
  "tsc h = uint (rdtsc_edx h) * 2 ^ 32 + uint (rdtsc_eax h)"

text \<open>The two guards of the ARM branch, in the words of the register descriptions: bit 0
  of the permission register and bit 31 of the enable register.\<close>

definition pmu_guards :: "('t::len, 'u::len) hw \<Rightarrow> bool" where
  "pmu_guards h = (bit (pmuseren h) 0 \<and> bit (pmcntenset h) 31)"

text \<open>A clock reading as the number of microseconds it stands for, in unbounded
  arithmetic.\<close>

definition micros :: "('t::len, 'u::len) timeval \<Rightarrow> int" where
  "micros tv = sint (tv_sec tv) * 1000000 + sint (tv_usec tv)"

text \<open>A well-formed clock reading: no negative seconds, microseconds within one second.\<close>

definition well_formed :: "('t::len, 'u::len) timeval \<Rightarrow> bool" where
  "well_formed tv =
     (0 \<le> sint (tv_sec tv) \<and> 0 \<le> sint (tv_usec tv) \<and> sint (tv_usec tv) < 1000000)"

text \<open>The lexicographic order on clock readings: seconds first, then microseconds.\<close>

definition timeval_less :: "('t::len, 'u::len) timeval \<Rightarrow> ('t, 'u) timeval \<Rightarrow> bool" where
  "timeval_less a b =
     (sint (tv_sec a) < sint (tv_sec b)
      \<or> (sint (tv_sec a) = sint (tv_sec b) \<and> sint (tv_usec a) < sint (tv_usec b)))"


text \<open>
  The counter value behind the readings of one call, in counter units, before any
  reinterpretation as \<^verbatim>\<open>int64_t\<close>: the unsigned register or kernel value; on PowerPC
  the time base at the last of the three reads; on the ARM branch the 32-bit cycle
  counter when it is read, otherwise the clock in microseconds, as on MIPS.
\<close>

fun raw_counter :: "config \<Rightarrow> branch \<Rightarrow> ('t::len, 'u::len) hw \<Rightarrow> int" where
  "raw_counter cfg MacOSX h = uint (mach_absolute_time h)"
| "raw_counter cfg I386 h = tsc h"
| "raw_counter cfg X86_64 h = tsc h"
| "raw_counter cfg PowerPC h = uint (tb_third h)"
| "raw_counter cfg Sparc h = uint (tick h)"
| "raw_counter cfg IA64 h = uint (ar_itc h)"
| "raw_counter cfg MSVC_IX86 h = tsc h"
| "raw_counter cfg MSVC h = tsc h"
| "raw_counter cfg ARM h =
     (if ARMV6 cfg \<and> pmu_guards h then uint (pmccntr h) else micros (gettimeofday h))"
| "raw_counter cfg MIPS h = micros (gettimeofday h)"




subsection \<open>Control flow\<close>




subsection \<open>Concrete configurations and readings\<close>

text \<open>No macro defined, and a machine whose every source answers zero; the concrete
  cases below change the fields they are about.\<close>

definition no_macros :: config where
  "no_macros =
     \<lparr>OS_MACOSX = False, i386 = False, x86_64 = False, amd64 = False, powerpc = False,
      ppc = False, sparc = False, ia64 = False, COMPILER_MSVC = False, M_IX86 = False,
      ARMV3 = False, ARMV6 = False, mips = False\<rparr>"

definition zero_hw :: "('t::len, 'u::len) hw" where
  "zero_hw =
     \<lparr>mach_absolute_time = 0, rdtsc_eax = 0, rdtsc_edx = 0, tb_first = 0, tb_second = 0,
      tb_third = 0, tick = 0, ar_itc = 0, pmuseren = 0, pmcntenset = 0, pmccntr = 0,
      gettimeofday = \<lparr>tv_sec = 0, tv_usec = 0\<rparr>\<rparr>"

section \<open>Word facts\<close>

text \<open>Two 32-bit halves, zero-extended and put side by side, do not overlap.\<close>

lemma halves_or_add:
  "push_bit 32 (ucast (d::32 word)) OR ucast (a::32 word) =
     (push_bit 32 (ucast d) + ucast a :: 64 word)"
  using word_cat_eq_push_bit_or [of d a, where 'c=64] word_cat_eq [of d a, where 'c=64]
  by simp

lemma uint_ucast_32_64: "uint (ucast (w::32 word) :: 64 word) = uint w"
  by (simp add: uint_up_ucast is_up)

lemma ucast_32_64_inj: "(ucast (v::32 word) :: 64 word) = ucast (w::32 word) \<longleftrightarrow> v = w"
proof
  assume "(ucast v :: 64 word) = ucast w"
  then have "uint (ucast v :: 64 word) = uint (ucast w :: 64 word)" by simp
  then show "v = w" by (simp add: uint_ucast_32_64 word_uint_eq_iff)
qed simp

lemma halves_bound: "uint (d::32 word) * 2 ^ 32 + uint (a::32 word) < 2 ^ 64"
proof -
  have "uint d < 2 ^ 32" "uint a < 2 ^ 32"
    using uint_lt2p [of d] uint_lt2p [of a] by simp_all
  then show ?thesis by simp
qed

lemma uint_halves:
  "uint (push_bit 32 (ucast (d::32 word)) OR ucast (a::32 word) :: 64 word) =
     uint d * 2 ^ 32 + uint a"
proof -
  have "uint (push_bit 32 (ucast d) + ucast a :: 64 word) =
          (uint d * 2 ^ 32 + uint a) mod 2 ^ 64"
    by (simp add: uint_word_ariths push_bit_eq_mult uint_ucast_32_64 mod_simps)
  moreover have "0 \<le> uint d * 2 ^ 32 + uint a" by simp
  ultimately show ?thesis
    using halves_bound [of d a] by (simp add: halves_or_add)
qed

lemma uint_edx_eax: "uint (edx_eax d a) = uint d * 2 ^ 32 + uint a"
  by (simp add: edx_eax_def uint_halves)

text \<open>Below \<open>2^63\<close> the signed and the unsigned reading of 64 bits agree.\<close>

lemma sint_eq_uint_64: "uint (w::64 word) < 2 ^ 63 \<Longrightarrow> sint w = uint w"
proof -
  assume a: "uint w < 2 ^ 63"
  have "(0::int) \<le> uint w" by simp
  then have "- (2 ^ 63) \<le> uint w" by (rule order_trans [rotated]) simp
  then have "signed_take_bit 63 (uint w) = uint w"
    using a by (rule signed_take_bit_int_eq_self)
  then show ?thesis by (simp add: sint_uint)
qed

lemma sint_word_of_int_64:
  "- (2 ^ 63) \<le> k \<Longrightarrow> k < 2 ^ 63 \<Longrightarrow> sint (word_of_int k :: 64 word) = k"
  using signed_take_bit_int_eq_self [of 63 k] by (simp add: sint_sbintrunc')

lemma sint_bounds_32:
  fixes w :: "'a::len word"
  assumes "LENGTH('a) \<le> 32"
  shows "- (2 ^ 31) \<le> sint w \<and> sint w < 2 ^ 31"
proof -
  have "LENGTH('a) - 1 \<le> 31" using assms by simp
  then have p: "(2::int) ^ (LENGTH('a) - 1) \<le> 2 ^ 31"
    by (intro power_increasing) simp_all
  show ?thesis using sint_ge [of w] sint_lt [of w] p by linarith
qed

text \<open>The mask tests of lines 103 and 105 test one bit each.\<close>

lemma mask_bit0: "(w AND 1 \<noteq> 0) = bit (w::32 word) 0"
  using bit_iff_and_push_bit_not_eq_0 [of w 0] by simp

lemma mask_bit31: "(w AND 0x80000000 \<noteq> 0) = bit (w::32 word) 31"
  using bit_iff_and_push_bit_not_eq_0 [of w 31] by simp

text \<open>A 32-bit count times 64 fits 64 bits with room to spare.\<close>

lemma sint_pmu: "sint (ucast (c::32 word) * 64 :: 64 word) = uint c * 64"
proof -
  have "uint c < 2 ^ 32" using uint_lt2p [of c] by simp
  then have b: "uint c * 64 < 2 ^ 63" by simp
  have "uint (ucast c * 64 :: 64 word) = (uint c * 64) mod 2 ^ 64"
    by (simp add: uint_word_ariths uint_ucast_32_64)
  with b have "uint (ucast c * 64 :: 64 word) = uint c * 64" by simp
  with b show ?thesis by (simp add: sint_eq_uint_64)
qed

text \<open>The two halves of the time base as numbers.\<close>

lemma uint_mftbu: "uint (mftbu tb) = uint tb div 2 ^ 32"
proof -
  have lt: "uint tb < 2 ^ 64" using uint_lt2p [of tb] by simp
  then have m: "uint tb mod 2 ^ 64 = uint tb" by simp
  have a: "uint (drop_bit 32 tb) = uint tb div 2 ^ 32"
    using m by (simp only: unsigned_drop_bit_eq) (simp add: drop_bit_eq_div take_bit_eq_mod)
  from lt have b: "uint tb div 2 ^ 32 < 2 ^ 32" by simp
  have c: "0 \<le> uint tb div 2 ^ 32" by (simp add: pos_imp_zdiv_nonneg_iff)
  have "uint (mftbu tb) = (uint tb div 2 ^ 32) mod 2 ^ 32"
    unfolding mftbu_def
    by (simp only: unsigned_ucast_eq a) (simp add: take_bit_eq_mod)
  with b c show ?thesis by simp
qed

lemma uint_mftb: "uint (mftb tb) = uint tb mod 2 ^ 32"
  unfolding mftb_def
  by (simp add: unsigned_ucast_eq take_bit_eq_mod)

section \<open>The clock in microseconds\<close>

lemma timeval_micros_word: "timeval_micros tv = word_of_int (micros tv)"
  by (simp add: timeval_micros_def micros_def)

lemma micros_strict_mono:
  "well_formed a \<Longrightarrow> well_formed b \<Longrightarrow> timeval_less a b \<Longrightarrow> micros a < micros b"
  unfolding well_formed_def timeval_less_def micros_def by auto


lemma micros_nonneg: "well_formed a \<Longrightarrow> 0 \<le> micros a"
  unfolding well_formed_def micros_def by auto

text \<open>With a \<^verbatim>\<open>time_t\<close> of at most 32 bits the product cannot leave 64 bits.\<close>

lemma micros_below_32:
  fixes tv :: "('t::len, 'u::len) timeval"
  assumes "LENGTH('t) \<le> 32" "well_formed tv"
  shows "micros tv < 2 ^ 63"
proof -
  have "sint (tv_sec tv) < 2 ^ 31" using sint_bounds_32 [OF assms(1)] by blast
  moreover have "sint (tv_usec tv) < 1000000" using assms(2) by (simp add: well_formed_def)
  ultimately show ?thesis by (simp add: micros_def)
qed

lemma micros_range_32:
  fixes tv :: "('t::len, 'u::len) timeval"
  assumes "LENGTH('t) \<le> 32" "LENGTH('u) \<le> 32"
  shows "- (2 ^ 63) \<le> micros tv \<and> micros tv < 2 ^ 63"
  using sint_bounds_32 [OF assms(1), of "tv_sec tv"] sint_bounds_32 [OF assms(2), of "tv_usec tv"]
  by (simp add: micros_def)

text \<open>Two different clock readings are ordered one way or the other.\<close>

lemma timeval_trichotomy:
  fixes a b :: "('t::len, 'u::len) timeval"
  assumes "a \<noteq> b"
  shows "timeval_less a b \<or> timeval_less b a"
proof (rule ccontr)
  assume "\<not> (timeval_less a b \<or> timeval_less b a)"
  then have "sint (tv_sec a) = sint (tv_sec b)" "sint (tv_usec a) = sint (tv_usec b)"
    by (auto simp add: timeval_less_def)
  then have "tv_sec a = tv_sec b" "tv_usec a = tv_usec b"
    by (simp_all add: signed_word_eqI)
  then have "a = b" by (simp add: timeval.equality)
  with assms show False by simp
qed

section \<open>The bodies as numbers\<close>

subsection \<open>PowerPC\<close>

lemma uint_powerpc_combine:
  fixes tbu0 tbl tbu1 :: "32 word"
  shows "uint (powerpc_combine (ucast tbu0) (ucast tbl) (ucast tbu1)) =
           (if tbu0 \<noteq> tbu1 then uint tbu1 * 2 ^ 32 else uint tbu1 * 2 ^ 32 + uint tbl)"
proof -
  have eq: "powerpc_combine (ucast tbu0) (ucast tbl) (ucast tbu1) =
              push_bit 32 (ucast tbu1) OR ucast (if tbu0 \<noteq> tbu1 then 0 else tbl)"
    by (simp add: powerpc_combine_def Let_def ucast_32_64_inj)
  show ?thesis
    unfolding eq uint_halves by simp
qed

lemma uint_now_powerpc:
  "uint (snd (now_powerpc h)) =
     (if uint (tb_first h) div 2 ^ 32 \<noteq> uint (tb_third h) div 2 ^ 32
      then uint (tb_third h) div 2 ^ 32 * 2 ^ 32
      else uint (tb_third h) div 2 ^ 32 * 2 ^ 32 + uint (tb_second h) mod 2 ^ 32)"
  by (simp add: now_powerpc_def Let_def uint_powerpc_combine word_uint_eq_iff uint_mftbu uint_mftb)



lemma split_read_below:
  fixes c1 c2 :: int
  assumes "0 \<le> c2" "c2 < 2 ^ 63"
  shows "(if P then c2 div 2 ^ 32 * 2 ^ 32 else c2 div 2 ^ 32 * 2 ^ 32 + c1 mod 2 ^ 32) < 2 ^ 63"
proof -
  have "c2 div 2 ^ 32 \<le> (2 ^ 63 - 1) div 2 ^ 32"
    using assms by (intro zdiv_mono1) simp_all
  then have u: "c2 div 2 ^ 32 \<le> 2 ^ 31 - 1" by simp
  have l: "c1 mod 2 ^ 32 < 2 ^ 32" by simp
  from u have "c2 div 2 ^ 32 * 2 ^ 32 \<le> (2 ^ 31 - 1) * 2 ^ 32" by simp
  with l have a: "c2 div 2 ^ 32 * 2 ^ 32 + c1 mod 2 ^ 32 < 2 ^ 63" by simp
  have "0 \<le> c1 mod 2 ^ 32" by simp
  with a have b: "c2 div 2 ^ 32 * 2 ^ 32 < 2 ^ 63" by linarith
  show ?thesis
  proof (cases P)
    case True
    with b show ?thesis by (simp only: if_True)
  next
    case False
    with a show ?thesis by (simp only: if_False)
  qed
qed

lemma now_value_powerpc:
  assumes "uint (tb_third h) < 2 ^ 63"
  shows "now_value cfg PowerPC h = uint (snd (now_powerpc h))"
proof -
  have "uint (snd (now_powerpc h)) < 2 ^ 63"
    unfolding uint_now_powerpc using assms by (intro split_read_below) simp_all
  then show ?thesis by (simp add: now_value_def sint_eq_uint_64)
qed

subsection \<open>ARM\<close>

lemma now_arm_pmu:
  "armv6 \<and> pmu_guards h \<Longrightarrow>
     now_arm armv6 h = ([Rd_pmuseren, Rd_pmcntenset, Rd_pmccntr], ucast (pmccntr h) * 64)"
  by (simp add: now_arm_def pmu_guards_def mask_bit0 mask_bit31)

lemma now_arm_fallback:
  "\<not> (armv6 \<and> pmu_guards h) \<Longrightarrow>
     snd (now_arm armv6 h) = timeval_micros (gettimeofday h)
     \<and> Rd_pmccntr \<notin> set (fst (now_arm armv6 h))
     \<and> last (fst (now_arm armv6 h)) = Rd_gettimeofday"
  by (auto simp add: now_arm_def pmu_guards_def mask_bit0 mask_bit31 now_gettimeofday_def Let_def)

lemma now_value_pmu:
  "ARMV6 cfg \<and> pmu_guards h \<Longrightarrow> now_value cfg ARM h = uint (pmccntr h) * 64"
  using now_arm_pmu [of "ARMV6 cfg" h] by (simp add: now_value_def sint_pmu)

subsection \<open>The clock\<close>

lemma body_arm_fallback:
  "\<not> (ARMV6 cfg \<and> pmu_guards h) \<Longrightarrow> snd (body cfg ARM h) = timeval_micros (gettimeofday h)"
  using now_arm_fallback [of "ARMV6 cfg" h] by simp

lemma body_mips: "snd (body cfg MIPS h) = timeval_micros (gettimeofday h)"
  by (simp add: now_mips_def now_gettimeofday_def Let_def)

lemma now_value_clock:
  assumes "b = MIPS \<or> (b = ARM \<and> \<not> (ARMV6 cfg \<and> pmu_guards h))"
    and "0 \<le> micros (gettimeofday h)" "micros (gettimeofday h) < 2 ^ 63"
  shows "now_value cfg b h = micros (gettimeofday h)"
proof -
  have "snd (body cfg b h) = timeval_micros (gettimeofday h)"
    using assms(1) body_arm_fallback [of cfg h] body_mips [of cfg h] by auto
  moreover have "- (2 ^ 63) \<le> micros (gettimeofday h)"
    using assms(2) by (rule order_trans [rotated]) simp
  ultimately show ?thesis
    using assms(3) by (simp add: now_value_def timeval_micros_word sint_word_of_int_64)
qed

subsection \<open>The other counters\<close>

lemma now_value_counter:
  assumes "b \<noteq> PowerPC" "b \<noteq> ARM" "b \<noteq> MIPS" "raw_counter cfg b h < 2 ^ 63"
  shows "now_value cfg b h = raw_counter cfg b h"
  using assms
  by (cases b)
     (simp_all add: now_value_def now_macosx_def now_i386_def now_x86_64_def now_sparc_def
        now_ia64_def now_msvc_ix86_def now_msvc_def x86_64_combine_def Let_def
        tsc_def uint_halves uint_edx_eax sint_eq_uint_64)

subsection \<open>The compiled function\<close>

lemma Now_body: "select_branch cfg = Some b \<Longrightarrow> Now cfg = Inr now \<Longrightarrow> now = body cfg b"
  by (simp add: Now_def)

subsection \<open>One call after another\<close>




subsection \<open>How a call ends\<close>


text \<open>Every triple of 32-bit values is a possible answer of the three time-base reads.\<close>

lemma mftbu_push_bit: "mftbu (push_bit 32 (ucast x)) = x"
proof -
  have "uint (push_bit 32 (ucast x) :: 64 word) = uint x * 2 ^ 32"
    using uint_halves [of x 0] by simp
  then have "uint (mftbu (push_bit 32 (ucast x))) = uint x"
    by (simp add: uint_mftbu)
  then show ?thesis by (simp add: word_uint_eq_iff)
qed

lemma mftb_ucast: "mftb (ucast x) = x"
proof -
  have "uint x < 2 ^ 32" using uint_lt2p [of x] by simp
  then have "uint (mftb (ucast x)) = uint x"
    by (simp add: uint_mftb uint_ucast_32_64)
  then show ?thesis by (simp add: word_uint_eq_iff)
qed

section \<open>The claims\<close>

subsection \<open>C1: successive calls\<close>




subsection \<open>C2: the PowerPC split read\<close>

text \<open>
  C2. On the PowerPC branch a call reads the upper half of the time base (\<open>tbu0\<close>), the
  lower half (\<open>tbl\<close>) and the upper half again (\<open>tbu1\<close>), in this order. When the two
  upper reads differ it returns \<open>tbu1 << 32\<close>, the lower half being zero; when they
  agree it returns \<open>(tbu1 << 32) | tbl\<close>, the lower half being \<open>tbl\<close> unchanged. The
  third conjunct says the same of the 64-bit pattern read as a number. The last one
  says that every triple of 32-bit values is the answer of the three reads of some call,
  which then returns as said.
\<close>

theorem powerpc_split_read:
  fixes h :: "('t::len, 'u::len) hw"
  assumes "select_branch cfg = Some PowerPC" and "Now cfg = Inr now"
  shows "fst (now h) = [Rd_mftbu, Rd_mftb, Rd_mftbu]
       \<and> snd (now h) =
           (if mftbu (tb_first h) \<noteq> mftbu (tb_third h)
            then push_bit 32 (ucast (mftbu (tb_third h)))
            else push_bit 32 (ucast (mftbu (tb_third h))) OR ucast (mftb (tb_second h)))
       \<and> uint (snd (now h)) =
           (if mftbu (tb_first h) \<noteq> mftbu (tb_third h)
            then uint (mftbu (tb_third h)) * 2 ^ 32
            else uint (mftbu (tb_third h)) * 2 ^ 32 + uint (mftb (tb_second h)))
       \<and> (\<exists>k :: ('t, 'u) hw.
            mftbu (tb_first k) = tbu0 \<and> mftb (tb_second k) = tbl \<and> mftbu (tb_third k) = tbu1
            \<and> snd (now k) =
                (if tbu0 \<noteq> tbu1 then push_bit 32 (ucast tbu1)
                 else push_bit 32 (ucast tbu1) OR ucast tbl))"
proof -
  have now: "now = now_powerpc" using Now_body [OF assms] by simp
  have v: "snd (now x) =
           (if mftbu (tb_first x) \<noteq> mftbu (tb_third x)
            then push_bit 32 (ucast (mftbu (tb_third x)))
            else push_bit 32 (ucast (mftbu (tb_third x))) OR ucast (mftb (tb_second x)))"
    for x :: "('t, 'u) hw"
    by (simp add: now now_powerpc_def powerpc_combine_def Let_def ucast_32_64_inj)
  have u: "uint (snd (now h)) =
           (if mftbu (tb_first h) \<noteq> mftbu (tb_third h)
            then uint (mftbu (tb_third h)) * 2 ^ 32
            else uint (mftbu (tb_third h)) * 2 ^ 32 + uint (mftb (tb_second h)))"
    by (simp add: now now_powerpc_def Let_def uint_powerpc_combine)
  have r: "fst (now h) = [Rd_mftbu, Rd_mftb, Rd_mftbu]"
    by (simp add: now now_powerpc_def Let_def)
  let ?k = "zero_hw\<lparr>tb_first := push_bit 32 (ucast tbu0), tb_second := ucast tbl,
               tb_third := push_bit 32 (ucast tbu1)\<rparr> :: ('t, 'u) hw"
  have k: "mftbu (tb_first ?k) = tbu0 \<and> mftb (tb_second ?k) = tbl \<and> mftbu (tb_third ?k) = tbu1"
    by (simp add: mftbu_push_bit mftb_ucast)
  have "snd (now ?k) =
          (if tbu0 \<noteq> tbu1 then push_bit 32 (ucast tbu1)
           else push_bit 32 (ucast tbu1) OR ucast tbl)"
    unfolding v using k by simp
  with k have "\<exists>k :: ('t, 'u) hw.
            mftbu (tb_first k) = tbu0 \<and> mftb (tb_second k) = tbl \<and> mftbu (tb_third k) = tbu1
            \<and> snd (now k) =
                (if tbu0 \<noteq> tbu1 then push_bit 32 (ucast tbu1)
                 else push_bit 32 (ucast tbu1) OR ucast tbl)"
    by blast
  with r v [of h] u show ?thesis by simp
qed

text \<open>The two concrete cases of the claim. A rollover between the reads: upper 5, lower
  0xFFFFFFFF, upper 6 give \<open>0x600000000\<close>. No rollover: upper 5, lower 100, upper 5 give
  \<open>(5 << 32) | 100\<close>.\<close>

theorem powerpc_split_read_witness:
  "select_branch (no_macros\<lparr>ppc := True\<rparr>) = Some PowerPC
   \<and> Now (no_macros\<lparr>ppc := True\<rparr>) = Inr (now_powerpc :: (32, 32) hw \<Rightarrow> outcome)
   \<and> mftbu (0x5FFFFFFF0) = 5 \<and> mftb (0x5FFFFFFFF) = 0xFFFFFFFF \<and> mftbu (0x600000003) = 6
   \<and> now_powerpc (zero_hw\<lparr>tb_first := 0x5FFFFFFF0, tb_second := 0x5FFFFFFFF,
                           tb_third := 0x600000003\<rparr> :: (32, 32) hw)
       = ([Rd_mftbu, Rd_mftb, Rd_mftbu], 0x600000000)
   \<and> mftbu (0x500000060) = 5 \<and> mftb (0x500000064) = 100 \<and> mftbu (0x500000068) = 5
   \<and> now_powerpc (zero_hw\<lparr>tb_first := 0x500000060, tb_second := 0x500000064,
                           tb_third := 0x500000068\<rparr> :: (32, 32) hw)
       = ([Rd_mftbu, Rd_mftb, Rd_mftbu], push_bit 32 5 OR 100)"
proof -
  let ?c = "no_macros\<lparr>ppc := True\<rparr>"
  let ?h1 = "zero_hw\<lparr>tb_first := 0x5FFFFFFF0, tb_second := 0x5FFFFFFFF,
               tb_third := 0x600000003\<rparr> :: (32, 32) hw"
  let ?h2 = "zero_hw\<lparr>tb_first := 0x500000060, tb_second := 0x500000064,
               tb_third := 0x500000068\<rparr> :: (32, 32) hw"
  have s: "select_branch ?c = Some PowerPC" by (simp add: select_branch_def no_macros_def)
  have n: "Now ?c = Inr (now_powerpc :: (32, 32) hw \<Rightarrow> outcome)" by (simp add: Now_def s)
  have m: "mftbu (0x5FFFFFFF0) = 5 \<and> mftb (0x5FFFFFFFF) = 0xFFFFFFFF \<and> mftbu (0x600000003) = 6
           \<and> mftbu (0x500000060) = 5 \<and> mftb (0x500000064) = 100 \<and> mftbu (0x500000068) = 5"
    by (simp add: mftbu_def mftb_def)
  from powerpc_split_read [OF s n, of ?h1] powerpc_split_read [OF s n, of ?h2] s n m
  show ?thesis by (simp add: zero_hw_def prod_eq_iff)
qed

subsection \<open>C3: the guarded ARM read\<close>

text \<open>
  C3. On the ARM branch built with the performance-monitor path (\<^verbatim>\<open>ARMV6\<close> defined),
  a call reads the cycle counter register if and only if both guards pass (bit 0 of the
  permission register and bit 31 of the enable register are set). When they pass, the
  call reads the three registers in order and returns \<open>pmccntr * 64\<close>. When one of them
  fails, the call does not read the cycle counter register, ends with the clock query
  and returns \<open>seconds * 1000000 + microseconds\<close> as a 64-bit integer.
\<close>

theorem arm_guarded_read:
  assumes "select_branch cfg = Some ARM" and "ARMV6 cfg" and "Now cfg = Inr now"
  shows "(Rd_pmccntr \<in> set (fst (now h)) \<longleftrightarrow> pmu_guards h)
       \<and> (pmu_guards h \<longrightarrow>
            fst (now h) = [Rd_pmuseren, Rd_pmcntenset, Rd_pmccntr]
            \<and> sint (snd (now h)) = uint (pmccntr h) * 64)
       \<and> (\<not> pmu_guards h \<longrightarrow>
            last (fst (now h)) = Rd_gettimeofday
            \<and> snd (now h) =
                word_of_int (sint (tv_sec (gettimeofday h)) * 1000000
                             + sint (tv_usec (gettimeofday h))))"
proof -
  have now: "now = now_arm True" using Now_body [OF assms(1,3)] assms(2) by simp
  show ?thesis
  proof (cases "pmu_guards h")
    case True
    then show ?thesis
      unfolding now using now_arm_pmu [of True h] by (simp add: sint_pmu)
  next
    case False
    then show ?thesis
      unfolding now using now_arm_fallback [of True h]
      by (simp add: timeval_micros_word micros_def)
  qed
qed

text \<open>Both guards set with the counter at 3: the call returns 192. Permission bit
  clear, enable bit set, clock at 2 s and 5 us: the call reads the permission register
  and the clock only, and returns 2000005.\<close>

theorem arm_guarded_read_witness:
  "select_branch (no_macros\<lparr>ARMV3 := True, ARMV6 := True\<rparr>) = Some ARM
   \<and> ARMV6 (no_macros\<lparr>ARMV3 := True, ARMV6 := True\<rparr>)
   \<and> Now (no_macros\<lparr>ARMV3 := True, ARMV6 := True\<rparr>)
        = Inr (now_arm True :: (32, 32) hw \<Rightarrow> outcome)
   \<and> pmu_guards (zero_hw\<lparr>pmuseren := 1, pmcntenset := 0x80000000, pmccntr := 3\<rparr>
        :: (32, 32) hw)
   \<and> sint (snd (now_arm True (zero_hw\<lparr>pmuseren := 1, pmcntenset := 0x80000000, pmccntr := 3\<rparr>
        :: (32, 32) hw))) = 192
   \<and> \<not> pmu_guards (zero_hw\<lparr>pmcntenset := 0x80000000, pmccntr := 3,
        gettimeofday := \<lparr>tv_sec = 2, tv_usec = 5\<rparr>\<rparr> :: (32, 32) hw)
   \<and> now_arm True (zero_hw\<lparr>pmcntenset := 0x80000000, pmccntr := 3,
        gettimeofday := \<lparr>tv_sec = 2, tv_usec = 5\<rparr>\<rparr> :: (32, 32) hw)
        = ([Rd_pmuseren, Rd_gettimeofday], 2000005)"
proof -
  let ?c = "no_macros\<lparr>ARMV3 := True, ARMV6 := True\<rparr>"
  let ?h1 = "zero_hw\<lparr>pmuseren := 1, pmcntenset := 0x80000000, pmccntr := 3\<rparr> :: (32, 32) hw"
  let ?h2 = "zero_hw\<lparr>pmcntenset := 0x80000000, pmccntr := 3,
               gettimeofday := \<lparr>tv_sec = 2, tv_usec = 5\<rparr>\<rparr> :: (32, 32) hw"
  have s: "select_branch ?c = Some ARM" by (simp add: select_branch_def no_macros_def)
  have a: "ARMV6 ?c" by simp
  have n: "Now ?c = Inr (now_arm True :: (32, 32) hw \<Rightarrow> outcome)" by (simp add: Now_def s)
  have g1: "pmu_guards ?h1" by (simp add: pmu_guards_def zero_hw_def)
  have g2: "\<not> pmu_guards ?h2" by (simp add: pmu_guards_def zero_hw_def)
  have r2: "fst (now_arm True ?h2) = [Rd_pmuseren, Rd_gettimeofday]"
    by (simp add: now_arm_def now_gettimeofday_def zero_hw_def)
  from arm_guarded_read [OF s a n, of ?h1] arm_guarded_read [OF s a n, of ?h2] g1 g2 r2 s a n
  show ?thesis by (simp add: zero_hw_def prod_eq_iff)
qed

subsection \<open>C4: how a call ends\<close>




subsection \<open>C5: the x86-64 register pair\<close>

text \<open>
  C5. On the 64-bit x86 branch, for every pair of 32-bit values the time-stamp-counter
  read leaves in the low register (EAX) and the high register (EDX), the returned 64-bit
  pattern is \<open>(high << 32) | low\<close>, and as an unsigned number it is
  \<open>high * 2^32 + low\<close>: the high register is the upper half, the low register the lower
  half. Read as \<^verbatim>\<open>int64_t\<close> the value is that number as long as the high register is
  below \<open>2^31\<close>.
\<close>

theorem x86_64_combination_order:
  assumes "select_branch cfg = Some X86_64" and "Now cfg = Inr now"
  shows "snd (now h) = (push_bit 32 (ucast (rdtsc_edx h)) OR ucast (rdtsc_eax h))
       \<and> uint (snd (now h)) = uint (rdtsc_edx h) * 2 ^ 32 + uint (rdtsc_eax h)
       \<and> (uint (rdtsc_edx h) < 2 ^ 31 \<longrightarrow>
            sint (snd (now h)) = uint (rdtsc_edx h) * 2 ^ 32 + uint (rdtsc_eax h))"
proof -
  have now: "now = now_x86_64" using Now_body [OF assms] by simp
  have v: "snd (now h) = (push_bit 32 (ucast (rdtsc_edx h)) OR ucast (rdtsc_eax h))"
    by (simp add: now now_x86_64_def x86_64_combine_def Let_def)
  have u: "uint (snd (now h)) = uint (rdtsc_edx h) * 2 ^ 32 + uint (rdtsc_eax h)"
    unfolding v by (rule uint_halves)
  have "sint (snd (now h)) = uint (snd (now h))" if "uint (rdtsc_edx h) < 2 ^ 31"
  proof -
    have "uint (rdtsc_eax h) < 2 ^ 32" using uint_lt2p [of "rdtsc_eax h"] by simp
    with that have "uint (snd (now h)) < 2 ^ 63" unfolding u by simp
    then show ?thesis by (rule sint_eq_uint_64)
  qed
  with v u show ?thesis by simp
qed

text \<open>EDX = 1 and EAX = 2 give \<open>0x100000002\<close>, not \<open>0x200000001\<close>.\<close>

theorem x86_64_combination_order_witness:
  "select_branch (no_macros\<lparr>amd64 := True\<rparr>) = Some X86_64
   \<and> Now (no_macros\<lparr>amd64 := True\<rparr>) = Inr (now_x86_64 :: (64, 64) hw \<Rightarrow> outcome)
   \<and> uint (rdtsc_edx (zero_hw\<lparr>rdtsc_eax := 2, rdtsc_edx := 1\<rparr> :: (64, 64) hw)) < 2 ^ 31
   \<and> sint (snd (now_x86_64 (zero_hw\<lparr>rdtsc_eax := 2, rdtsc_edx := 1\<rparr> :: (64, 64) hw)))
        = 0x100000002"
proof -
  let ?c = "no_macros\<lparr>amd64 := True\<rparr>"
  let ?h = "zero_hw\<lparr>rdtsc_eax := 2, rdtsc_edx := 1\<rparr> :: (64, 64) hw"
  have s: "select_branch ?c = Some X86_64" by (simp add: select_branch_def no_macros_def)
  have n: "Now ?c = Inr (now_x86_64 :: (64, 64) hw \<Rightarrow> outcome)" by (simp add: Now_def s)
  from x86_64_combination_order [OF s n, of ?h] s n show ?thesis
    by (simp add: zero_hw_def)
qed

subsection \<open>C6: the value of the fallback\<close>

text \<open>
  C6. On the generic fallback (the MIPS branch, and the ARM branch when the
  performance-monitor path is not compiled in or one of its guards fails), for every
  clock reading of \<open>s\<close> seconds and \<open>u\<close> microseconds the call returns
  \<open>s * 1000000 + u\<close> as a 64-bit integer. The returned signed number is exactly
  \<open>s * 1000000 + u\<close> whenever that number fits 64 bits, which it always does when
  \<^verbatim>\<open>time_t\<close> and \<^verbatim>\<open>suseconds_t\<close> have at most 32 bits.
\<close>

theorem fallback_value:
  fixes h :: "('t::len, 'u::len) hw"
  assumes "select_branch cfg = Some b" and "Now cfg = Inr now"
    and "b = MIPS \<or> (b = ARM \<and> \<not> (ARMV6 cfg \<and> pmu_guards h))"
  shows "snd (now h) =
           word_of_int (sint (tv_sec (gettimeofday h)) * 1000000 + sint (tv_usec (gettimeofday h)))
       \<and> (- (2 ^ 63) \<le> sint (tv_sec (gettimeofday h)) * 1000000 + sint (tv_usec (gettimeofday h))
          \<and> sint (tv_sec (gettimeofday h)) * 1000000 + sint (tv_usec (gettimeofday h)) < 2 ^ 63
          \<longrightarrow> sint (snd (now h)) =
                sint (tv_sec (gettimeofday h)) * 1000000 + sint (tv_usec (gettimeofday h)))
       \<and> (LENGTH('t) \<le> 32 \<and> LENGTH('u) \<le> 32
          \<longrightarrow> sint (snd (now h)) =
                sint (tv_sec (gettimeofday h)) * 1000000 + sint (tv_usec (gettimeofday h)))"
proof -
  have "now = body cfg b" using assms(1,2) by (rule Now_body)
  then have v: "snd (now h) = timeval_micros (gettimeofday h)"
    using assms(3) body_arm_fallback [of cfg h] body_mips [of cfg h] by auto
  show ?thesis
    unfolding v micros_def [symmetric]
    using micros_range_32 [of "gettimeofday h"]
    by (auto simp add: timeval_micros_word sint_word_of_int_64)
qed

text \<open>MIPS with 32-bit fields, the clock at 2 s and 5 us: 2000005. ARM without the
  performance-monitor path, the clock at 1 s and 999999 us: 1999999.\<close>

theorem fallback_value_witness:
  "select_branch (no_macros\<lparr>mips := True\<rparr>) = Some MIPS
   \<and> Now (no_macros\<lparr>mips := True\<rparr>) = Inr (now_mips :: (32, 32) hw \<Rightarrow> outcome)
   \<and> sint (snd (now_mips
        (zero_hw\<lparr>gettimeofday := \<lparr>tv_sec = 2, tv_usec = 5\<rparr>\<rparr> :: (32, 32) hw))) = 2000005
   \<and> select_branch (no_macros\<lparr>ARMV3 := True\<rparr>) = Some ARM
   \<and> Now (no_macros\<lparr>ARMV3 := True\<rparr>) = Inr (now_arm False :: (32, 32) hw \<Rightarrow> outcome)
   \<and> sint (snd (now_arm False
        (zero_hw\<lparr>gettimeofday := \<lparr>tv_sec = 1, tv_usec = 999999\<rparr>\<rparr> :: (32, 32) hw))) = 1999999"
proof -
  let ?m = "no_macros\<lparr>mips := True\<rparr>"
  let ?a = "no_macros\<lparr>ARMV3 := True\<rparr>"
  let ?h1 = "zero_hw\<lparr>gettimeofday := \<lparr>tv_sec = 2, tv_usec = 5\<rparr>\<rparr> :: (32, 32) hw"
  let ?h2 = "zero_hw\<lparr>gettimeofday := \<lparr>tv_sec = 1, tv_usec = 999999\<rparr>\<rparr> :: (32, 32) hw"
  have s1: "select_branch ?m = Some MIPS" by (simp add: select_branch_def no_macros_def)
  have n1: "Now ?m = Inr (now_mips :: (32, 32) hw \<Rightarrow> outcome)" by (simp add: Now_def s1)
  have s2: "select_branch ?a = Some ARM" by (simp add: select_branch_def no_macros_def)
  have a6: "ARMV6 ?a = False" by (simp add: no_macros_def)
  have n2: "Now ?a = Inr (now_arm False :: (32, 32) hw \<Rightarrow> outcome)"
    by (simp add: Now_def s2 a6)
  have c1: "MIPS = MIPS \<or> (MIPS = ARM \<and> \<not> (ARMV6 ?m \<and> pmu_guards ?h1))" by simp
  have c2: "ARM = MIPS \<or> (ARM = ARM \<and> \<not> (ARMV6 ?a \<and> pmu_guards ?h2))"
    by (simp add: a6)
  from fallback_value [OF s1 n1 c1] fallback_value [OF s2 n2 c2] s1 n1 s2 n2
  show ?thesis by (simp add: zero_hw_def)
qed

subsection \<open>C7: no negative value below the sign bit\<close>

text \<open>
  C7. Under every configuration that selects a branch, a call whose raw counter value
  (\<open>raw_counter\<close>, in counter units) is a count below \<open>2^63\<close> returns a value that is
  not negative. A count is not negative itself: for the unsigned sources this always
  holds, for the clock it says that the reading is not before the epoch.
\<close>

theorem now_nonnegative:
  assumes "select_branch cfg = Some b" and "Now cfg = Inr now"
    and "0 \<le> raw_counter cfg b h" and "raw_counter cfg b h < 2 ^ 63"
  shows "0 \<le> sint (snd (now h))"
proof -
  have now: "sint (snd (now h)) = now_value cfg b h"
    using Now_body [OF assms(1,2)] by (simp add: now_value_def)
  consider (ppc) "b = PowerPC" | (pmu) "b = ARM" "ARMV6 cfg \<and> pmu_guards h"
    | (clock) "b = MIPS \<or> (b = ARM \<and> \<not> (ARMV6 cfg \<and> pmu_guards h))"
    | (counter) "b \<noteq> PowerPC" "b \<noteq> ARM" "b \<noteq> MIPS"
    by blast
  then have "0 \<le> now_value cfg b h"
  proof cases
    case ppc
    then show ?thesis using assms(4) now_value_powerpc [of h cfg] by simp
  next
    case pmu
    then show ?thesis using now_value_pmu [of cfg h] by simp
  next
    case clock
    then have "raw_counter cfg b h = micros (gettimeofday h)" by auto
    with clock assms(3,4) show ?thesis using now_value_clock [of b cfg h] by simp
  next
    case counter
    then show ?thesis using assms(3,4) now_value_counter [of b cfg h] by simp
  qed
  with now show ?thesis by simp
qed

text \<open>Mach time at \<open>2^63 - 1\<close>, the largest count below the sign bit.\<close>

theorem now_nonnegative_witness:
  "select_branch (no_macros\<lparr>OS_MACOSX := True\<rparr>) = Some MacOSX
   \<and> Now (no_macros\<lparr>OS_MACOSX := True\<rparr>) = Inr (now_macosx :: (64, 64) hw \<Rightarrow> outcome)
   \<and> raw_counter (no_macros\<lparr>OS_MACOSX := True\<rparr>) MacOSX
        (zero_hw\<lparr>mach_absolute_time := 0x7FFFFFFFFFFFFFFF\<rparr> :: (64, 64) hw) = 2 ^ 63 - 1
   \<and> 0 \<le> sint (snd (now_macosx
        (zero_hw\<lparr>mach_absolute_time := 0x7FFFFFFFFFFFFFFF\<rparr> :: (64, 64) hw)))"
proof -
  let ?c = "no_macros\<lparr>OS_MACOSX := True\<rparr>"
  let ?h = "zero_hw\<lparr>mach_absolute_time := 0x7FFFFFFFFFFFFFFF\<rparr> :: (64, 64) hw"
  have s: "select_branch ?c = Some MacOSX" by (simp add: select_branch_def no_macros_def)
  have n: "Now ?c = Inr (now_macosx :: (64, 64) hw \<Rightarrow> outcome)" by (simp add: Now_def s)
  have r: "raw_counter ?c MacOSX ?h = 2 ^ 63 - 1" by (simp add: zero_hw_def)
  have lo: "0 \<le> raw_counter ?c MacOSX ?h" and hi: "raw_counter ?c MacOSX ?h < 2 ^ 63"
    unfolding r by simp_all
  from now_nonnegative [OF s n lo hi] s n r show ?thesis by simp
qed

subsection \<open>C8: the unrecognized platform\<close>

text \<open>
  C8. Under every configuration in which none of the guards of the chain holds,
  compiling the header gives the text of the \<^verbatim>\<open>#error\<close> directive, and gives no
  function: there is no body that would return zero or the clock at run time.
\<close>

theorem unrecognized_platform_error:
  assumes "\<not> OS_MACOSX cfg" "\<not> i386 cfg" "\<not> x86_64 cfg" "\<not> amd64 cfg" "\<not> powerpc cfg"
    "\<not> ppc cfg" "\<not> sparc cfg" "\<not> ia64 cfg" "\<not> COMPILER_MSVC cfg" "\<not> ARMV3 cfg" "\<not> mips cfg"
  shows "(Now cfg :: string + (('t::len, 'u::len) hw \<Rightarrow> outcome))
           = Inl ''You need to define CycleTimer for your OS and CPU''
       \<and> (\<forall>now :: ('t, 'u) hw \<Rightarrow> outcome. Now cfg \<noteq> Inr now)"
  using assms by (simp add: Now_def select_branch_def error_directive_def)

text \<open>No macro at all, and \<^verbatim>\<open>ARMV6\<close> alone (the guard of the ARM branch is
  \<^verbatim>\<open>ARMV3\<close>).\<close>

theorem unrecognized_platform_error_witness:
  "(Now no_macros :: string + ((32, 32) hw \<Rightarrow> outcome))
      = Inl ''You need to define CycleTimer for your OS and CPU''
   \<and> (Now (no_macros\<lparr>ARMV6 := True\<rparr>) :: string + ((32, 32) hw \<Rightarrow> outcome))
      = Inl ''You need to define CycleTimer for your OS and CPU''"
  using unrecognized_platform_error [of no_macros, where ?'t = 32 and ?'u = 32]
    unrecognized_platform_error [of "no_macros\<lparr>ARMV6 := True\<rparr>", where ?'t = 32 and ?'u = 32]
  by (simp add: no_macros_def)

subsection \<open>C9: the scaled ARM counter\<close>

text \<open>
  C9. On the ARM performance-monitor path (both guards pass), for every 32-bit counter
  value the returned value is \<open>pmccntr * 64\<close> computed without overflow: it is not
  negative, a multiple of 64, at most \<open>(2^32 - 1) * 64\<close> and so below \<open>2^38\<close>. When the
  32-bit counter wraps between two calls (it advances by \<open>d\<close> past \<open>2^32\<close>), the later
  call returns \<open>2^38\<close> less than the unwrapped count would give, a value below that of
  the earlier call.
\<close>

theorem arm_pmu_scaling:
  assumes "select_branch cfg = Some ARM" and "ARMV6 cfg" and "Now cfg = Inr now"
    and "pmu_guards h"
  shows "sint (snd (now h)) = uint (pmccntr h) * 64
       \<and> 0 \<le> sint (snd (now h))
       \<and> 64 dvd sint (snd (now h))
       \<and> sint (snd (now h)) \<le> (2 ^ 32 - 1) * 64
       \<and> sint (snd (now h)) < 2 ^ 38
       \<and> (\<forall>h'. pmu_guards h' \<and> 2 ^ 32 \<le> uint (pmccntr h) + uint d
                \<and> pmccntr h' = pmccntr h + d \<longrightarrow>
              sint (snd (now h')) = sint (snd (now h)) + uint d * 64 - 2 ^ 38
              \<and> sint (snd (now h')) < sint (snd (now h)))"
proof -
  have now: "now = body cfg ARM" using assms(1,3) by (rule Now_body)
  have v: "sint (snd (now k)) = uint (pmccntr k) * 64" if "pmu_guards k" for k
    using that assms(2) now_value_pmu [of cfg k] by (simp add: now now_value_def)
  have b: "uint (pmccntr h) < 2 ^ 32" using uint_lt2p [of "pmccntr h"] by simp
  have d: "uint d < 2 ^ 32" using uint_lt2p [of d] by simp
  have wrap: "uint (pmccntr h + d) = uint (pmccntr h) + uint d - 2 ^ 32"
    if "2 ^ 32 \<le> uint (pmccntr h) + uint d"
  proof -
    from b d have "uint (pmccntr h) + uint d < 2 * 2 ^ 32" by simp
    with that have "(uint (pmccntr h) + uint d) mod 2 ^ 32 = uint (pmccntr h) + uint d - 2 ^ 32"
      using mod_pos_pos_trivial [of "uint (pmccntr h) + uint d - 2 ^ 32" "2 ^ 32"]
        mod_add_self2 [of "uint (pmccntr h) + uint d - 2 ^ 32" "2 ^ 32"]
      by simp
    then show ?thesis by (simp add: uint_word_ariths)
  qed
  show ?thesis
    using v [OF assms(4)] b d
    by (auto simp add: v wrap)
qed

text \<open>The counter at its last value \<open>0xFFFFFFFF\<close>, then one tick later at 0: the calls
  return \<open>(2^32 - 1) * 64\<close> and then 0.\<close>

theorem arm_pmu_scaling_witness:
  "select_branch (no_macros\<lparr>ARMV3 := True, ARMV6 := True\<rparr>) = Some ARM
   \<and> ARMV6 (no_macros\<lparr>ARMV3 := True, ARMV6 := True\<rparr>)
   \<and> Now (no_macros\<lparr>ARMV3 := True, ARMV6 := True\<rparr>)
        = Inr (now_arm True :: (32, 32) hw \<Rightarrow> outcome)
   \<and> pmu_guards (zero_hw\<lparr>pmuseren := 1, pmcntenset := 0x80000000, pmccntr := 0xFFFFFFFF\<rparr>
        :: (32, 32) hw)
   \<and> pmu_guards (zero_hw\<lparr>pmuseren := 1, pmcntenset := 0x80000000, pmccntr := 0\<rparr>
        :: (32, 32) hw)
   \<and> sint (snd (now_arm True
        (zero_hw\<lparr>pmuseren := 1, pmcntenset := 0x80000000, pmccntr := 0xFFFFFFFF\<rparr>
          :: (32, 32) hw))) = 274877906880
   \<and> sint (snd (now_arm True
        (zero_hw\<lparr>pmuseren := 1, pmcntenset := 0x80000000, pmccntr := 0\<rparr>
          :: (32, 32) hw))) = 0"
proof -
  let ?c = "no_macros\<lparr>ARMV3 := True, ARMV6 := True\<rparr>"
  let ?h = "zero_hw\<lparr>pmuseren := 1, pmcntenset := 0x80000000, pmccntr := 0xFFFFFFFF\<rparr>
              :: (32, 32) hw"
  let ?h' = "zero_hw\<lparr>pmuseren := 1, pmcntenset := 0x80000000, pmccntr := 0\<rparr> :: (32, 32) hw"
  have s: "select_branch ?c = Some ARM" by (simp add: select_branch_def no_macros_def)
  have a: "ARMV6 ?c" by simp
  have n: "Now ?c = Inr (now_arm True :: (32, 32) hw \<Rightarrow> outcome)" by (simp add: Now_def s)
  have g: "pmu_guards ?h" by (simp add: pmu_guards_def zero_hw_def)
  have g': "pmu_guards ?h'" by (simp add: pmu_guards_def zero_hw_def)
  note t = arm_pmu_scaling [OF s a n g, where d = 1]
  from t have v: "sint (snd (now_arm True ?h)) = 274877906880"
    by (simp add: zero_hw_def)
  from t have "pmu_guards ?h' \<and> 2 ^ 32 \<le> uint (pmccntr ?h) + uint (1 :: 32 word)
                \<and> pmccntr ?h' = pmccntr ?h + 1 \<longrightarrow>
              sint (snd (now_arm True ?h')) = sint (snd (now_arm True ?h)) + uint (1 :: 32 word) * 64 - 2 ^ 38"
    by blast
  moreover have "2 ^ 32 \<le> uint (pmccntr ?h) + uint (1 :: 32 word)" by (simp add: zero_hw_def)
  moreover have "pmccntr ?h' = pmccntr ?h + 1" by (simp add: zero_hw_def)
  ultimately have "sint (snd (now_arm True ?h')) = 0"
    using g' v by simp
  with s a n g g' v show ?thesis by simp
qed

subsection \<open>C10: the fallback keeps the order of the clock\<close>

text \<open>
  C10, as amended. On the generic fallback, for two well-formed clock readings
  (\<open>0 \<le> s\<close>, \<open>0 \<le> u < 1000000\<close>) whose microsecond counts \<open>s * 1000000 + u\<close> are below
  \<open>2^63\<close> (as every well-formed reading is when \<^verbatim>\<open>time_t\<close> has at most 32 bits): if
  the first is below the second in the lexicographic order then the first call returns
  less than the second, and different readings give different returned values.
\<close>

theorem fallback_strictly_increasing:
  fixes h1 h2 :: "('t::len, 'u::len) hw"
  assumes "select_branch cfg = Some b" and "Now cfg = Inr now"
    and "b = MIPS
         \<or> (b = ARM \<and> \<not> (ARMV6 cfg \<and> pmu_guards h1) \<and> \<not> (ARMV6 cfg \<and> pmu_guards h2))"
    and "well_formed (gettimeofday h1)" and "well_formed (gettimeofday h2)"
    and "LENGTH('t) \<le> 32
         \<or> (micros (gettimeofday h1) < 2 ^ 63 \<and> micros (gettimeofday h2) < 2 ^ 63)"
  shows "(timeval_less (gettimeofday h1) (gettimeofday h2)
            \<longrightarrow> sint (snd (now h1)) < sint (snd (now h2)))
       \<and> (gettimeofday h1 \<noteq> gettimeofday h2 \<longrightarrow> snd (now h1) \<noteq> snd (now h2))"
proof -
  have now: "now = body cfg b" using assms(1,2) by (rule Now_body)
  have b1: "micros (gettimeofday h1) < 2 ^ 63" and b2: "micros (gettimeofday h2) < 2 ^ 63"
    using assms(4,5,6) micros_below_32 [of "gettimeofday h1"] micros_below_32 [of "gettimeofday h2"]
    by auto
  have c1: "b = MIPS \<or> (b = ARM \<and> \<not> (ARMV6 cfg \<and> pmu_guards h1))"
    and c2: "b = MIPS \<or> (b = ARM \<and> \<not> (ARMV6 cfg \<and> pmu_guards h2))"
    using assms(3) by auto
  have v1: "sint (snd (now h1)) = micros (gettimeofday h1)"
    using now_value_clock [OF c1 micros_nonneg [OF assms(4)] b1] by (simp add: now now_value_def)
  have v2: "sint (snd (now h2)) = micros (gettimeofday h2)"
    using now_value_clock [OF c2 micros_nonneg [OF assms(5)] b2] by (simp add: now now_value_def)
  have lt: "sint (snd (now x)) < sint (snd (now y))"
    if "timeval_less (gettimeofday x) (gettimeofday y)" "x = h1 \<and> y = h2 \<or> x = h2 \<and> y = h1"
    for x y
    using that v1 v2 micros_strict_mono [OF assms(4,5)] micros_strict_mono [OF assms(5,4)]
    by auto
  have "snd (now h1) \<noteq> snd (now h2)" if "gettimeofday h1 \<noteq> gettimeofday h2"
    using timeval_trichotomy [OF that] lt [of h1 h2] lt [of h2 h1] by auto
  with lt [of h1 h2] show ?thesis by blast
qed

text \<open>MIPS with 32-bit fields: the clock at 1 s and 999999 us, then at 2 s and 0 us.\<close>

theorem fallback_strictly_increasing_witness:
  "select_branch (no_macros\<lparr>mips := True\<rparr>) = Some MIPS
   \<and> Now (no_macros\<lparr>mips := True\<rparr>) = Inr (now_mips :: (32, 32) hw \<Rightarrow> outcome)
   \<and> well_formed (\<lparr>tv_sec = 1, tv_usec = 999999\<rparr> :: (32, 32) timeval)
   \<and> well_formed (\<lparr>tv_sec = 2, tv_usec = 0\<rparr> :: (32, 32) timeval)
   \<and> timeval_less (\<lparr>tv_sec = 1, tv_usec = 999999\<rparr> :: (32, 32) timeval) \<lparr>tv_sec = 2, tv_usec = 0\<rparr>
   \<and> sint (snd (now_mips
        (zero_hw\<lparr>gettimeofday := \<lparr>tv_sec = 1, tv_usec = 999999\<rparr>\<rparr> :: (32, 32) hw)))
     < sint (snd (now_mips
        (zero_hw\<lparr>gettimeofday := \<lparr>tv_sec = 2, tv_usec = 0\<rparr>\<rparr> :: (32, 32) hw)))"
proof -
  let ?c = "no_macros\<lparr>mips := True\<rparr>"
  let ?h1 = "zero_hw\<lparr>gettimeofday := \<lparr>tv_sec = 1, tv_usec = 999999\<rparr>\<rparr> :: (32, 32) hw"
  let ?h2 = "zero_hw\<lparr>gettimeofday := \<lparr>tv_sec = 2, tv_usec = 0\<rparr>\<rparr> :: (32, 32) hw"
  have s: "select_branch ?c = Some MIPS" by (simp add: select_branch_def no_macros_def)
  have n: "Now ?c = Inr (now_mips :: (32, 32) hw \<Rightarrow> outcome)" by (simp add: Now_def s)
  have c: "MIPS = MIPS
           \<or> (MIPS = ARM \<and> \<not> (ARMV6 ?c \<and> pmu_guards ?h1) \<and> \<not> (ARMV6 ?c \<and> pmu_guards ?h2))"
    by simp
  have w1: "well_formed (gettimeofday ?h1)" by (simp add: well_formed_def zero_hw_def)
  have w2: "well_formed (gettimeofday ?h2)" by (simp add: well_formed_def zero_hw_def)
  have r: "LENGTH(32) \<le> 32
           \<or> (micros (gettimeofday ?h1) < 2 ^ 63 \<and> micros (gettimeofday ?h2) < 2 ^ 63)"
    by simp
  have l: "timeval_less (gettimeofday ?h1) (gettimeofday ?h2)"
    by (simp add: timeval_less_def zero_hw_def)
  from fallback_strictly_increasing [OF s n c w1 w2 r] s n w1 w2 l
  show ?thesis by (simp add: zero_hw_def)
qed

text \<open>
  The claim as stated, for all well-formed readings, fails with a 64-bit \<^verbatim>\<open>time_t\<close>
  where the product leaves 64 bits. On MIPS, the reading of 9223372036855 s is above
  the reading of 0 s and the call returns a negative value, below the 0 returned for
  0 s; and the reading of \<open>2^58\<close> s returns 0 as well, the same value as the different
  reading of 0 s.
\<close>

theorem fallback_strictly_increasing_counterexample:
  "select_branch (no_macros\<lparr>mips := True\<rparr>) = Some MIPS
   \<and> well_formed (\<lparr>tv_sec = 0, tv_usec = 0\<rparr> :: (64, 64) timeval)
   \<and> well_formed (\<lparr>tv_sec = 9223372036855, tv_usec = 0\<rparr> :: (64, 64) timeval)
   \<and> well_formed (\<lparr>tv_sec = 288230376151711744, tv_usec = 0\<rparr> :: (64, 64) timeval)
   \<and> timeval_less (\<lparr>tv_sec = 0, tv_usec = 0\<rparr> :: (64, 64) timeval)
        \<lparr>tv_sec = 9223372036855, tv_usec = 0\<rparr>
   \<and> now_value (no_macros\<lparr>mips := True\<rparr>) MIPS
        (zero_hw\<lparr>gettimeofday := \<lparr>tv_sec = 0, tv_usec = 0\<rparr>\<rparr> :: (64, 64) hw) = 0
   \<and> now_value (no_macros\<lparr>mips := True\<rparr>) MIPS
        (zero_hw\<lparr>gettimeofday := \<lparr>tv_sec = 9223372036855, tv_usec = 0\<rparr>\<rparr> :: (64, 64) hw)
        = - 9223372036854551616
   \<and> (\<lparr>tv_sec = 0, tv_usec = 0\<rparr> :: (64, 64) timeval)
        \<noteq> \<lparr>tv_sec = 288230376151711744, tv_usec = 0\<rparr>
   \<and> now_value (no_macros\<lparr>mips := True\<rparr>) MIPS
        (zero_hw\<lparr>gettimeofday := \<lparr>tv_sec = 288230376151711744, tv_usec = 0\<rparr>\<rparr> :: (64, 64) hw)
        = 0"
  by (simp add: select_branch_def no_macros_def well_formed_def timeval_less_def now_value_def
        now_mips_def now_gettimeofday_def timeval_micros_def zero_hw_def)

end
